theory Spec2Isabelle
  imports Main "HOL-Library.Char_ord" "HOL-Library.List_Lexorder"
begin

section \<open>Font Awesome 5 mapping generator (make-fontawesome5.py)\<close>

text \<open>
  A shallow embedding of the generation core of \<^verbatim>\<open>make-fontawesome5.py\<close>: the functions
  \<^verbatim>\<open>make_cmdname\<close>, \<^verbatim>\<open>make_map\<close>, \<^verbatim>\<open>make_cmd\<close> and the generation pass of
  \<^verbatim>\<open>main\<close> (from \<^verbatim>\<open>icon_list = sorted(icons.keys())\<close> to the \<^verbatim>\<open>data\<close> dictionary).
  Argument parsing, the download, the file checks and the substitution into
  \<^verbatim>\<open>STY_TEMPLATE\<close> are input and output around that core and are not modelled.

  Python strings are modelled as \<^typ>\<open>string\<close>. Icon names, style tags, hexadecimal code
  points and every literal of the program are ASCII text, and \<^verbatim>\<open>str.upper\<close> is modelled
  on ASCII: it maps \<^verbatim>\<open>a..z\<close> to \<^verbatim>\<open>A..Z\<close> and leaves every other character as it is.
  The order of Python strings (by code point, a proper prefix first) is the
  lexicographic order of \<^typ>\<open>string\<close> over the order of characters by their code.
\<close>

subsection \<open>Characters and strings\<close>

text \<open>The backslash, the double quote and the newline of the program's literals.\<close>

definition bs :: char where
  "bs = CHR 0x5C"

definition dq :: char where
  "dq = CHR 0x22"

definition nl :: char where
  "nl = CHR 0x0A"

definition lowercase :: string where
  "lowercase = ''abcdefghijklmnopqrstuvwxyz''"

definition uppercase :: string where
  "uppercase = ''ABCDEFGHIJKLMNOPQRSTUVWXYZ''"

definition digits :: string where
  "digits = ''0123456789''"

text \<open>\<^verbatim>\<open>ALLOWED_CHARS\<close> (line 32); the program defines it and never reads it.\<close>

definition ALLOWED_CHARS :: string where
  "ALLOWED_CHARS = ''abcdefghijklmnopqrstuvwxyzABCDEFGHIJKLMNOPQRSTUVWXYZ''"

text \<open>\<^verbatim>\<open>c.upper()\<close> for a single ASCII character.\<close>

definition upper_char :: "char \<Rightarrow> char" where
  "upper_char c = (case map_of (zip lowercase uppercase) c of Some u \<Rightarrow> u | None \<Rightarrow> c)"

text \<open>\<^verbatim>\<open>s.upper()\<close>.\<close>

definition upper :: "string \<Rightarrow> string" where
  "upper s = map upper_char s"

text \<open>\<^verbatim>\<open>sep.join(xs)\<close>.\<close>

fun join :: "string \<Rightarrow> string list \<Rightarrow> string" where
  "join sep [] = []"
| "join sep [x] = x"
| "join sep (x # y # ys) = x @ sep @ join sep (y # ys)"

subsection \<open>Data\<close>

text \<open>
  One entry of \<^verbatim>\<open>icons.yml\<close> as the program reads it: \<^verbatim>\<open>icon["unicode"]\<close>, a
  hexadecimal string, and \<^verbatim>\<open>icon["styles"]\<close>, a list of style tags.
\<close>

record icon =
  unicode :: string
  styles :: "string list"

text \<open>
  The dictionary \<^verbatim>\<open>icons\<close> is an association list in insertion order; a Python
  dictionary has each key once, which is \<open>distinct (map fst icons)\<close>.
\<close>

type_synonym icons = "(string \<times> icon) list"

datatype error = ValueError string | KeyError string

text \<open>\<^verbatim>\<open>FONTS\<close> (lines 35-39).\<close>

definition FONTS :: "(string \<times> string) list" where
  "FONTS = [(''regular'', ''FontAwesomeRegular''),
            (''solid'', ''FontAwesomeSolid''),
            (''brands'', ''FontAwesomeBrands'')]"

subsection \<open>\<^verbatim>\<open>make_cmdname\<close> (lines 112-126)\<close>

text \<open>
  The loop \<^verbatim>\<open>for i, c in enumerate(name)\<close>: \<open>i\<close> is the index, \<open>up\<close> the flag
  \<^verbatim>\<open>upper\<close> and \<open>cmdname\<close> the list appended to.
\<close>

fun make_cmdname_loop :: "nat \<Rightarrow> bool \<Rightarrow> string \<Rightarrow> string \<Rightarrow> string" where
  "make_cmdname_loop i up cmdname [] = cmdname"
| "make_cmdname_loop i up cmdname (c # cs) =
     (if c = CHR ''-'' then make_cmdname_loop (i + 1) True cmdname cs
      else
        let up' = (if i = 0 then True else up) in
        make_cmdname_loop (i + 1) False
          (if up' then cmdname @ [upper_char c] else cmdname @ [c]) cs)"

definition make_cmdname :: "string \<Rightarrow> string" where
  "make_cmdname name = make_cmdname_loop 0 False [] name"

subsection \<open>\<^verbatim>\<open>make_map\<close> (lines 129-136)\<close>

definition make_map :: "string \<Rightarrow> string \<Rightarrow> string" where
  "make_map name symbol =
     bs # ''expandafter'' @ bs # ''def'' @ bs # ''csname faicon@'' @ name
       @ bs # ''endcsname{'' @ bs # ''symbol{'' @ dq # upper symbol @ ''}}''"

subsection \<open>\<^verbatim>\<open>make_cmd\<close> (lines 139-164)\<close>

text \<open>
  \<^verbatim>\<open>FONTS[key]\<close> raises \<^verbatim>\<open>KeyError\<close> on a missing key.
\<close>

definition FONTS_lookup :: "string \<Rightarrow> error + string" where
  "FONTS_lookup key = (case map_of FONTS key of None \<Rightarrow> Inl (KeyError key) | Some font \<Rightarrow> Inr font)"

text \<open>The statement of lines 160-164 for a resolved font.\<close>

definition cmd_statement :: "string \<Rightarrow> string \<Rightarrow> string \<Rightarrow> string" where
  "cmd_statement cmdname font name =
     bs # ''def'' @ bs # ''fa'' @ cmdname @ ''{{'' @ bs # font
       @ bs # ''csname faicon@'' @ name @ bs # ''endcsname}}''"

text \<open>
  The result is \<open>Inl\<close> of the exception raised, \<open>Inr None\<close> for \<^verbatim>\<open>return None\<close> and
  \<open>Inr (Some s)\<close> for a returned string. The local \<^verbatim>\<open>fallback\<close> is a style tag or
  \<^verbatim>\<open>None\<close>; \<^verbatim>\<open>None in icon["styles"]\<close> is false on a list of strings.
\<close>

definition make_cmd :: "string \<Rightarrow> icon \<Rightarrow> string \<Rightarrow> error + string option" where
  "make_cmd name icon style =
     (let cmdname = make_cmdname name in
      case (if style = ''solid'' then Inr (Some ''regular'')
            else if style = ''regular'' then Inr (Some ''solid'')
            else if style = ''brands'' then Inr None
            else Inl (ValueError (''Invalid style: '' @ style))) of
        Inl e \<Rightarrow> Inl e
      | Inr fallback \<Rightarrow>
          (case (if style \<in> set (styles icon) then map_sum id Some (FONTS_lookup style)
                 else case fallback of
                   None \<Rightarrow> Inr None
                 | Some fb \<Rightarrow>
                     if fb \<in> set (styles icon) then map_sum id Some (FONTS_lookup fb)
                     else Inr None) of
             Inl e \<Rightarrow> Inl e
           | Inr None \<Rightarrow> Inr None
           | Inr (Some font) \<Rightarrow> Inr (Some (cmd_statement cmdname font name))))"

subsection \<open>The generation pass of \<^verbatim>\<open>main\<close> (lines 194-217)\<close>

text \<open>\<^verbatim>\<open>icons[name]\<close> raises \<^verbatim>\<open>KeyError\<close> on a missing key.\<close>

definition icons_lookup :: "icons \<Rightarrow> string \<Rightarrow> error + icon" where
  "icons_lookup icons name =
     (case map_of icons name of None \<Rightarrow> Inl (KeyError name) | Some icon \<Rightarrow> Inr icon)"

text \<open>A list comprehension \<^verbatim>\<open>[f(x) for x in xs]\<close> whose body may raise.\<close>

fun comprehension :: "('a \<Rightarrow> error + 'b) \<Rightarrow> 'a list \<Rightarrow> error + 'b list" where
  "comprehension f [] = Inr []"
| "comprehension f (x # xs) =
     (case f x of
        Inl e \<Rightarrow> Inl e
      | Inr y \<Rightarrow> (case comprehension f xs of Inl e \<Rightarrow> Inl e | Inr ys \<Rightarrow> Inr (y # ys)))"

text \<open>
  \<^verbatim>\<open>[cmd for cmd in cmds if cmd]\<close>: the test is Python's truth value, false on
  \<^verbatim>\<open>None\<close> and on the empty string.
\<close>

fun exclude_nones :: "string option list \<Rightarrow> string list" where
  "exclude_nones [] = []"
| "exclude_nones (None # cmds) = exclude_nones cmds"
| "exclude_nones (Some cmd # cmds) =
     (if cmd = [] then exclude_nones cmds else cmd # exclude_nones cmds)"

record lists =
  mappings :: "string list"
  cmds_regular :: "string list"
  cmds_solid :: "string list"
  cmds_brands :: "string list"

text \<open>Lines 194-208: the four lists.\<close>

definition main_lists :: "icons \<Rightarrow> error + lists" where
  "main_lists icons =
     (let icon_list = sort (map fst icons) in
      case comprehension (\<lambda>name. case icons_lookup icons name of
                                   Inl e \<Rightarrow> Inl e
                                 | Inr icon \<Rightarrow> Inr (make_map name (unicode icon))) icon_list of
        Inl e \<Rightarrow> Inl e
      | Inr ms \<Rightarrow>
     (case comprehension (\<lambda>name. case icons_lookup icons name of
                                   Inl e \<Rightarrow> Inl e
                                 | Inr icon \<Rightarrow> make_cmd name icon ''regular'') icon_list of
        Inl e \<Rightarrow> Inl e
      | Inr rs \<Rightarrow>
     (case comprehension (\<lambda>name. case icons_lookup icons name of
                                   Inl e \<Rightarrow> Inl e
                                 | Inr icon \<Rightarrow> make_cmd name icon ''solid'') icon_list of
        Inl e \<Rightarrow> Inl e
      | Inr ss \<Rightarrow>
     (case comprehension (\<lambda>name. case icons_lookup icons name of
                                   Inl e \<Rightarrow> Inl e
                                 | Inr icon \<Rightarrow> make_cmd name icon ''brands'') icon_list of
        Inl e \<Rightarrow> Inl e
      | Inr bs' \<Rightarrow>
          Inr \<lparr>mappings = ms,
               cmds_regular = exclude_nones rs,
               cmds_solid = exclude_nones ss,
               cmds_brands = exclude_nones bs'\<rparr>))))"

text \<open>
  Lines 210-217: the text blocks of the \<^verbatim>\<open>data\<close> dictionary, in the order
  \<^verbatim>\<open>mappings\<close>, \<^verbatim>\<open>cmds_regular\<close>, \<^verbatim>\<open>cmds_solid\<close>, \<^verbatim>\<open>cmds_brands\<close> (the entries
  \<^verbatim>\<open>program\<close> and \<^verbatim>\<open>date\<close> come from the environment and are left out).
\<close>

definition main_data :: "icons \<Rightarrow> error + string \<times> string \<times> string \<times> string" where
  "main_data icons =
     (case main_lists icons of
        Inl e \<Rightarrow> Inl e
      | Inr l \<Rightarrow> Inr (join [nl] (mappings l), join [nl] (cmds_regular l),
                      join [nl] (cmds_solid l), join [nl] (cmds_brands l)))"

subsection \<open>Auxiliary definitions for the statements\<close>

text \<open>
  The loop of \<^verbatim>\<open>make_cmdname\<close> with the index folded into the flag: at index 0 the
  loop sets the flag itself, so the scan starts with the flag set.
\<close>

fun scan :: "bool \<Rightarrow> string \<Rightarrow> string" where
  "scan flag [] = []"
| "scan flag (c # cs) =
     (if c = CHR ''-'' then scan True cs
      else (if flag then upper_char c else c) # scan False cs)"

text \<open>A segment with its first character uppercased.\<close>

definition capitalize :: "string \<Rightarrow> string" where
  "capitalize s = (case s of [] \<Rightarrow> [] | c # cs \<Rightarrow> upper_char c # cs)"

text \<open>
  The fallback rule in the words of the specification: \<^verbatim>\<open>solid\<close> falls back to
  \<^verbatim>\<open>regular\<close>, \<^verbatim>\<open>regular\<close> to \<^verbatim>\<open>solid\<close>, and \<^verbatim>\<open>brands\<close> has no fallback.
\<close>

definition FallbackRule :: "string \<Rightarrow> string option" where
  "FallbackRule style =
     (if style = ''solid'' then Some ''regular''
      else if style = ''regular'' then Some ''solid''
      else None)"

text \<open>
  The style an icon resolves to for a target, in the words of the specification: the
  target when the icon has it, else the fallback when there is one and the icon has
  it, else none.
\<close>

definition resolved_style :: "string list \<Rightarrow> string \<Rightarrow> string option" where
  "resolved_style sts target =
     (if target \<in> set sts then Some target
      else case FallbackRule target of
        None \<Rightarrow> None
      | Some fb \<Rightarrow> if fb \<in> set sts then Some fb else None)"

text \<open>The statement for the resolved style, with the font that \<^verbatim>\<open>FONTS\<close> binds to it.\<close>

definition cmd_of :: "string \<Rightarrow> icon \<Rightarrow> string \<Rightarrow> string option" where
  "cmd_of name icon style =
     (case resolved_style (styles icon) style of
        None \<Rightarrow> None
      | Some r \<Rightarrow>
          (case map_of FONTS r of
             None \<Rightarrow> None
           | Some font \<Rightarrow> Some (cmd_statement (make_cmdname name) font name)))"

text \<open>An icon has the target style or the fallback of the target.\<close>

definition available :: "string \<Rightarrow> icon \<Rightarrow> bool" where
  "available target icon \<longleftrightarrow>
     target \<in> set (styles icon)
     \<or> (case FallbackRule target of None \<Rightarrow> False | Some fb \<Rightarrow> fb \<in> set (styles icon))"

text \<open>The icon set of the specification's example, \<^verbatim>\<open>github\<close> inserted first.\<close>

definition example_icons :: icons where
  "example_icons =
     [(''github'', \<lparr>unicode = ''f09b'', styles = [''brands'']\<rparr>),
      (''face-smile'', \<lparr>unicode = ''f118'', styles = [''solid'']\<rparr>)]"

section \<open>Properties\<close>

subsection \<open>The loop of \<^verbatim>\<open>make_cmdname\<close> and the characters\<close>

lemma make_cmdname_loop_scan:
  "make_cmdname_loop i up cmdname cs = cmdname @ scan (i = 0 \<or> up) cs"
  by (induction cs arbitrary: i up cmdname) (simp_all add: Let_def)

lemma make_cmdname_scan: "make_cmdname name = scan True name"
  by (simp add: make_cmdname_def make_cmdname_loop_scan)

lemma scan_index:
  "scan flag cs =
     map (\<lambda>i. if (i = 0 \<and> flag) \<or> (0 < i \<and> cs ! (i - 1) = CHR ''-'') then upper_char (cs ! i) else cs ! i)
       (filter (\<lambda>i. cs ! i \<noteq> CHR ''-'') [0..<length cs])"
proof (induction cs arbitrary: flag)
  case Nil
  show ?case by simp
next
  case (Cons c cs)
  have upt: "[0..<length (c # cs)] = 0 # map Suc [0..<length cs]"
    by (simp add: upt_conv_Cons map_Suc_upt del: upt_Suc)
  show ?case
    unfolding upt
    by (simp add: Cons.IH filter_map comp_def nth_Cons' cong: map_cong)
qed

lemma upper_char_lowercase: "c \<in> set lowercase \<Longrightarrow> upper_char c \<in> set uppercase"
  unfolding upper_char_def lowercase_def uppercase_def by (simp, elim disjE, simp_all)

lemma upper_char_digits: "c \<in> set digits \<Longrightarrow> upper_char c = c"
  unfolding upper_char_def lowercase_def uppercase_def digits_def by (simp, elim disjE, simp_all)

lemma upper_char_uppercase: "c \<in> set uppercase \<Longrightarrow> upper_char c = c"
  unfolding upper_char_def lowercase_def uppercase_def by (simp, elim disjE, simp_all)

lemma upper_char_hyphen: "upper_char c = CHR ''-'' \<longleftrightarrow> c = CHR ''-''"
  unfolding upper_char_def lowercase_def uppercase_def by simp

lemma hyphen_notin_scan: "CHR ''-'' \<notin> set (scan flag cs)"
  by (induction cs arbitrary: flag) (simp_all add: upper_char_hyphen eq_commute [of "CHR ''-''"])

lemma scan_chars:
  "set cs \<subseteq> set lowercase \<union> set digits \<union> {CHR ''-''} \<Longrightarrow>
   set (scan flag cs) \<subseteq> set lowercase \<union> set uppercase \<union> set digits"
proof (induction cs arbitrary: flag)
  case Nil
  show ?case by simp
next
  case (Cons c cs)
  from Cons.prems have tl: "set cs \<subseteq> set lowercase \<union> set digits \<union> {CHR ''-''}" by simp
  from Cons.prems have "c \<in> set lowercase \<or> c \<in> set digits \<or> c = CHR ''-''" by auto
  then show ?case
    using Cons.IH [OF tl] upper_char_lowercase [of c] upper_char_digits [of c]
    by auto
qed

lemma scan_append_hyphen: "scan flag (xs @ CHR ''-'' # ys) = scan flag xs @ scan True ys"
  by (induction xs arbitrary: flag) simp_all

lemma scan_append_hyphens:
  "0 < n \<Longrightarrow> scan flag (xs @ replicate n (CHR ''-'') @ ys) = scan flag xs @ scan True ys"
proof (induction n arbitrary: xs)
  case 0
  then show ?case by simp
next
  case (Suc n)
  show ?case
  proof (cases "n = 0")
    case True
    then show ?thesis by (simp add: scan_append_hyphen)
  next
    case False
    have "xs @ replicate (Suc n) (CHR ''-'') @ ys = (xs @ [CHR ''-'']) @ replicate n (CHR ''-'') @ ys"
      by simp
    also have "scan flag \<dots> = scan flag (xs @ [CHR ''-'']) @ scan True ys"
      using False Suc.IH [of "xs @ [CHR ''-'']"] by simp
    also have "scan flag (xs @ [CHR ''-'']) = scan flag xs"
      using scan_append_hyphen [of flag xs "[]"] by simp
    finally show ?thesis .
  qed
qed

lemma scan_False_no_hyphen: "CHR ''-'' \<notin> set s \<Longrightarrow> scan False s = s"
  by (induction s) auto

lemma scan_True_no_hyphen: "CHR ''-'' \<notin> set s \<Longrightarrow> scan True s = capitalize s"
  by (cases s) (auto simp: capitalize_def scan_False_no_hyphen)

lemma scan_join:
  "\<forall>s \<in> set segs. CHR ''-'' \<notin> set s \<Longrightarrow>
   scan True (join ''-'' segs) = concat (map capitalize segs)"
proof (induction "''-''" segs rule: join.induct)
  case 1
  show ?case by simp
next
  case (2 x)
  then show ?case by (simp add: scan_True_no_hyphen)
next
  case (3 x y ys)
  have "scan True (join ''-'' (x # y # ys)) = scan True x @ scan True (join ''-'' (y # ys))"
    using scan_append_hyphen [of True x "join ''-'' (y # ys)"] by simp
  with 3 show ?case by (simp add: scan_True_no_hyphen)
qed

lemma hyphen_notin_lowercase_digits: "CHR ''-'' \<notin> set lowercase \<union> set digits"
  by (simp add: lowercase_def digits_def)

lemma set_join: "set (join sep segs) \<subseteq> set sep \<union> (\<Union>s \<in> set segs. set s)"
  by (induction sep segs rule: join.induct) auto

lemma ALLOWED_CHARS_append: "ALLOWED_CHARS = lowercase @ uppercase"
  by (simp add: lowercase_def uppercase_def ALLOWED_CHARS_def)

lemma set_ALLOWED_CHARS: "set ALLOWED_CHARS = set lowercase \<union> set uppercase"
  unfolding ALLOWED_CHARS_append by (rule set_append)

lemma scan_False_index:
  "scan False ys =
     map (\<lambda>i. if 0 < i \<and> ys ! (i - 1) = CHR ''-'' then upper_char (ys ! i) else ys ! i)
       (filter (\<lambda>i. ys ! i \<noteq> CHR ''-'') [0..<length ys])"
  using scan_index [of False ys] by simp

lemma scan_True_index:
  "scan True name =
     map (\<lambda>i. if i = 0 \<or> name ! (i - 1) = CHR ''-'' then upper_char (name ! i) else name ! i)
       (filter (\<lambda>i. name ! i \<noteq> CHR ''-'') [0..<length name])"
proof -
  have "(\<lambda>i. if (i = 0 \<and> True) \<or> (0 < i \<and> name ! (i - 1) = CHR ''-'')
              then upper_char (name ! i) else name ! i)
      = (\<lambda>i. if i = 0 \<or> name ! (i - 1) = CHR ''-'' then upper_char (name ! i) else name ! i)"
    by (rule ext) auto
  then show ?thesis
    using scan_index [of True name] by simp
qed

subsection \<open>The name normalizer\<close>

text \<open>
  Claim C5. For a name made of lowercase letters, digits and hyphens, the result of
  \<^verbatim>\<open>make_cmdname\<close> holds no hyphen and only letters and digits, and it is the name
  without its hyphens in which exactly the character at index 0 and the characters
  that follow a hyphen went through \<^verbatim>\<open>upper\<close>. The result is a function of the name
  alone (the loop reads nothing else), so the same name always gives the same
  result; \<^verbatim>\<open>font-awesome\<close> gives \<^verbatim>\<open>FontAwesome\<close> and \<^verbatim>\<open>github\<close> gives
  \<^verbatim>\<open>Github\<close>.
\<close>

theorem make_cmdname_normal_form:
  assumes "set name \<subseteq> set lowercase \<union> set digits \<union> {CHR ''-''}"
  shows "CHR ''-'' \<notin> set (make_cmdname name)
       \<and> set (make_cmdname name) \<subseteq> set lowercase \<union> set uppercase \<union> set digits
       \<and> make_cmdname name =
           map (\<lambda>i. if i = 0 \<or> name ! (i - 1) = CHR ''-'' then upper_char (name ! i) else name ! i)
             (filter (\<lambda>i. name ! i \<noteq> CHR ''-'') [0..<length name])
       \<and> make_cmdname ''font-awesome'' = ''FontAwesome''
       \<and> make_cmdname ''github'' = ''Github''"
proof -
  have a: "CHR ''-'' \<notin> set (make_cmdname name)"
    by (simp add: make_cmdname_scan hyphen_notin_scan)
  have b: "set (make_cmdname name) \<subseteq> set lowercase \<union> set uppercase \<union> set digits"
    using assms by (simp add: make_cmdname_scan scan_chars)
  have "(\<lambda>i. if (i = 0 \<and> True) \<or> (0 < i \<and> name ! (i - 1) = CHR ''-'')
              then upper_char (name ! i) else name ! i)
      = (\<lambda>i. if i = 0 \<or> name ! (i - 1) = CHR ''-'' then upper_char (name ! i) else name ! i)"
    by (rule ext) auto
  then have c: "make_cmdname name =
      map (\<lambda>i. if i = 0 \<or> name ! (i - 1) = CHR ''-'' then upper_char (name ! i) else name ! i)
        (filter (\<lambda>i. name ! i \<noteq> CHR ''-'') [0..<length name])"
    using scan_index [of True name] by (simp add: make_cmdname_scan)
  have d: "make_cmdname ''font-awesome'' = ''FontAwesome''"
    by code_simp
  have e: "make_cmdname ''github'' = ''Github''"
    by code_simp
  from a b c d e show ?thesis by blast
qed

theorem make_cmdname_normal_form_witness:
  "set ''creative-commons-nc-eu'' \<subseteq> set lowercase \<union> set digits \<union> {CHR ''-''}
   \<and> CHR ''-'' \<notin> set (make_cmdname ''creative-commons-nc-eu'')
   \<and> make_cmdname ''creative-commons-nc-eu'' = ''CreativeCommonsNcEu''"
proof -
  have h: "set ''creative-commons-nc-eu'' \<subseteq> set lowercase \<union> set digits \<union> {CHR ''-''}"
    by code_simp
  have v: "make_cmdname ''creative-commons-nc-eu'' = ''CreativeCommonsNcEu''"
    by code_simp
  from h v make_cmdname_normal_form [OF h] show ?thesis by blast
qed

text \<open>
  Claim C6 as stated asks for a result of letters only. The name \<^verbatim>\<open>500px\<close> is one
  lowercase alphanumeric segment and comes back unchanged, digits included: the loop
  has no test on \<^verbatim>\<open>ALLOWED_CHARS\<close>.
\<close>

theorem make_cmdname_only_letters_counterexample:
  "set ''500px'' \<subseteq> set lowercase \<union> set digits
   \<and> make_cmdname ''500px'' = ''500px''
   \<and> \<not> set (make_cmdname ''500px'') \<subseteq> set ALLOWED_CHARS"
  by code_simp

text \<open>
  Claim C6, amended. For a name that is a sequence of non-empty segments of lowercase
  letters and digits joined by hyphens, the result of \<^verbatim>\<open>make_cmdname\<close> is the
  segments put together without the hyphens, each segment (the first one too) with
  its first character uppercased; it holds letters and digits only, and no hyphen.
\<close>

theorem make_cmdname_camel_case:
  assumes "\<forall>s \<in> set segs. s \<noteq> [] \<and> set s \<subseteq> set lowercase \<union> set digits"
  shows "make_cmdname (join ''-'' segs) = concat (map capitalize segs)
       \<and> set (make_cmdname (join ''-'' segs)) \<subseteq> set ALLOWED_CHARS \<union> set digits
       \<and> CHR ''-'' \<notin> set (make_cmdname (join ''-'' segs))"
proof -
  have nohy: "\<forall>s \<in> set segs. CHR ''-'' \<notin> set s"
    using assms hyphen_notin_lowercase_digits by blast
  have a: "make_cmdname (join ''-'' segs) = concat (map capitalize segs)"
    using nohy by (simp add: make_cmdname_scan scan_join)
  have "(\<Union>s \<in> set segs. set s) \<subseteq> set lowercase \<union> set digits"
    using assms by blast
  with set_join [of "''-''" segs]
  have "set (join ''-'' segs) \<subseteq> set lowercase \<union> set digits \<union> {CHR ''-''}"
    by auto
  then have "set (scan True (join ''-'' segs)) \<subseteq> set lowercase \<union> set uppercase \<union> set digits"
    by (rule scan_chars)
  then have b: "set (make_cmdname (join ''-'' segs)) \<subseteq> set ALLOWED_CHARS \<union> set digits"
    by (simp only: make_cmdname_scan set_ALLOWED_CHARS)
  have c: "CHR ''-'' \<notin> set (make_cmdname (join ''-'' segs))"
    by (simp add: make_cmdname_scan hyphen_notin_scan)
  from a b c show ?thesis by blast
qed

theorem make_cmdname_camel_case_witness:
  "list_all (\<lambda>s. s \<noteq> [] \<and> set s \<subseteq> set lowercase \<union> set digits)
     [''creative'', ''commons'', ''nc'', ''eu'']
   \<and> join ''-'' [''creative'', ''commons'', ''nc'', ''eu''] = ''creative-commons-nc-eu''
   \<and> make_cmdname ''creative-commons-nc-eu'' = ''CreativeCommonsNcEu''"
proof -
  have g: "list_all (\<lambda>s. s \<noteq> [] \<and> set s \<subseteq> set lowercase \<union> set digits)
     [''creative'', ''commons'', ''nc'', ''eu'']"
    by code_simp
  then have h: "\<forall>s \<in> set [''creative'', ''commons'', ''nc'', ''eu''].
      s \<noteq> [] \<and> set s \<subseteq> set lowercase \<union> set digits"
    by (simp only: list_all_iff)
  have j: "join ''-'' [''creative'', ''commons'', ''nc'', ''eu''] = ''creative-commons-nc-eu''"
    by code_simp
  have k: "concat (map capitalize [''creative'', ''commons'', ''nc'', ''eu'']) = ''CreativeCommonsNcEu''"
    by code_simp
  from make_cmdname_camel_case [OF h]
  have "make_cmdname (join ''-'' [''creative'', ''commons'', ''nc'', ''eu''])
          = concat (map capitalize [''creative'', ''commons'', ''nc'', ''eu''])"
    by (rule conjunct1)
  with g j k show ?thesis by (simp only: simp_thms)
qed

text \<open>
  Claim C7. The empty name gives the empty result. For every name the result is the
  name without its hyphens, in which exactly the character at index 0 and the
  characters that follow a hyphen went through \<^verbatim>\<open>upper\<close>; so no hyphen is ever
  emitted. A run of one or more hyphens between two parts has the effect of a single
  one: the result is the result of the part before followed by the result of the
  part after. After such a run the next character is emitted uppercased and the rest
  follows with the flag cleared: its first character is emitted as it is, and only
  characters after a further hyphen are uppercased (so a rest without hyphens is
  emitted unchanged). A digit or an uppercase letter is left as it is by
  \<^verbatim>\<open>upper\<close>; at the start of the name or after a hyphen it is emitted unchanged, and
  the rest follows with the flag cleared.
\<close>

theorem make_cmdname_edge_cases:
  "make_cmdname [] = []
   \<and> make_cmdname name =
       map (\<lambda>i. if i = 0 \<or> name ! (i - 1) = CHR ''-'' then upper_char (name ! i) else name ! i)
         (filter (\<lambda>i. name ! i \<noteq> CHR ''-'') [0..<length name])
   \<and> CHR ''-'' \<notin> set (make_cmdname name)
   \<and> (0 < n \<longrightarrow> make_cmdname (xs @ replicate n (CHR ''-'') @ ys) = make_cmdname xs @ make_cmdname ys)
   \<and> (0 < n \<and> c \<noteq> CHR ''-'' \<longrightarrow>
        make_cmdname (xs @ replicate n (CHR ''-'') @ c # ys)
          = make_cmdname xs @ upper_char c #
              map (\<lambda>i. if 0 < i \<and> ys ! (i - 1) = CHR ''-'' then upper_char (ys ! i) else ys ! i)
                (filter (\<lambda>i. ys ! i \<noteq> CHR ''-'') [0..<length ys]))
   \<and> (0 < n \<and> c \<noteq> CHR ''-'' \<and> CHR ''-'' \<notin> set ys \<longrightarrow>
        make_cmdname (xs @ replicate n (CHR ''-'') @ c # ys) = make_cmdname xs @ upper_char c # ys)
   \<and> (c \<in> set digits \<union> set uppercase \<longrightarrow>
        upper_char c = c
        \<and> make_cmdname (c # ys)
            = c # map (\<lambda>i. if 0 < i \<and> ys ! (i - 1) = CHR ''-'' then upper_char (ys ! i) else ys ! i)
                    (filter (\<lambda>i. ys ! i \<noteq> CHR ''-'') [0..<length ys])
        \<and> make_cmdname (xs @ CHR ''-'' # c # ys)
            = make_cmdname xs @ c #
                map (\<lambda>i. if 0 < i \<and> ys ! (i - 1) = CHR ''-'' then upper_char (ys ! i) else ys ! i)
                  (filter (\<lambda>i. ys ! i \<noteq> CHR ''-'') [0..<length ys]))"
proof -
  let ?rest = "map (\<lambda>i. if 0 < i \<and> ys ! (i - 1) = CHR ''-'' then upper_char (ys ! i) else ys ! i)
                 (filter (\<lambda>i. ys ! i \<noteq> CHR ''-'') [0..<length ys])"
  have rest: "scan False ys = ?rest"
    by (rule scan_False_index)
  have a: "make_cmdname [] = []"
    by (simp add: make_cmdname_def)
  have f: "make_cmdname name =
       map (\<lambda>i. if i = 0 \<or> name ! (i - 1) = CHR ''-'' then upper_char (name ! i) else name ! i)
         (filter (\<lambda>i. name ! i \<noteq> CHR ''-'') [0..<length name])"
    unfolding make_cmdname_scan by (rule scan_True_index)
  have b: "CHR ''-'' \<notin> set (make_cmdname name)"
    by (simp add: make_cmdname_scan hyphen_notin_scan)
  have c: "make_cmdname (xs @ replicate n (CHR ''-'') @ ys) = make_cmdname xs @ make_cmdname ys"
    if "0 < n"
    using that by (simp add: make_cmdname_scan scan_append_hyphens)
  have d0: "make_cmdname (xs @ replicate n (CHR ''-'') @ c # ys)
          = make_cmdname xs @ upper_char c # scan False ys"
    if "0 < n" "c \<noteq> CHR ''-''"
    using that by (simp add: make_cmdname_scan scan_append_hyphens)
  have d: "make_cmdname (xs @ replicate n (CHR ''-'') @ c # ys) = make_cmdname xs @ upper_char c # ?rest"
    if "0 < n" "c \<noteq> CHR ''-''"
    using d0 [OF that] by (simp only: rest)
  have d': "make_cmdname (xs @ replicate n (CHR ''-'') @ c # ys) = make_cmdname xs @ upper_char c # ys"
    if "0 < n" "c \<noteq> CHR ''-''" "CHR ''-'' \<notin> set ys"
    using d0 [OF that(1,2)] that(3) by (simp add: scan_False_no_hyphen)
  have e: "upper_char c = c
        \<and> make_cmdname (c # ys) = c # ?rest
        \<and> make_cmdname (xs @ CHR ''-'' # c # ys) = make_cmdname xs @ c # ?rest"
    if "c \<in> set digits \<union> set uppercase"
  proof -
    from that have u: "upper_char c = c"
      using upper_char_digits [of c] upper_char_uppercase [of c] by auto
    from that have nh: "c \<noteq> CHR ''-''"
      by (auto simp: digits_def uppercase_def)
    have "make_cmdname (c # ys) = c # scan False ys"
      using u nh by (simp add: make_cmdname_scan)
    moreover have "make_cmdname (xs @ CHR ''-'' # c # ys) = make_cmdname xs @ c # scan False ys"
      using u nh by (simp add: make_cmdname_scan scan_append_hyphen)
    ultimately show ?thesis using u by (simp only: rest simp_thms)
  qed
  from a f b c d d' e show ?thesis by blast
qed

theorem make_cmdname_edge_cases_witness:
  "(0::nat) < 3
   \<and> CHR ''b'' \<noteq> CHR ''-''
   \<and> make_cmdname (''a'' @ replicate 3 (CHR ''-'') @ CHR ''b'' # ''c-7d-Ef'') = ''ABc7dEf''
   \<and> CHR ''7'' \<in> set digits \<union> set uppercase
   \<and> upper_char (CHR ''7'') = CHR ''7''
   \<and> make_cmdname (''bc'' @ CHR ''-'' # CHR ''7'' # ''d-Ef'') = ''Bc7dEf''"
proof -
  have n: "(0::nat) < 3"
    by simp
  have h: "CHR ''b'' \<noteq> CHR ''-''"
    by simp
  have m: "CHR ''7'' \<in> set digits \<union> set uppercase"
    by code_simp
  have v: "make_cmdname ''a'' @ upper_char (CHR ''b'') #
             map (\<lambda>i. if 0 < i \<and> ''c-7d-Ef'' ! (i - 1) = CHR ''-''
                       then upper_char (''c-7d-Ef'' ! i) else ''c-7d-Ef'' ! i)
               (filter (\<lambda>i. ''c-7d-Ef'' ! i \<noteq> CHR ''-'') [0..<length ''c-7d-Ef''])
           = ''ABc7dEf''"
    by code_simp
  have w: "make_cmdname ''bc'' @ CHR ''7'' #
             map (\<lambda>i. if 0 < i \<and> ''d-Ef'' ! (i - 1) = CHR ''-''
                       then upper_char (''d-Ef'' ! i) else ''d-Ef'' ! i)
               (filter (\<lambda>i. ''d-Ef'' ! i \<noteq> CHR ''-'') [0..<length ''d-Ef''])
           = ''Bc7dEf''"
    by code_simp
  from n h
    make_cmdname_edge_cases [where n = 3 and c = "CHR ''b''" and xs = "''a''" and ys = "''c-7d-Ef''"]
  have p: "make_cmdname (''a'' @ replicate 3 (CHR ''-'') @ CHR ''b'' # ''c-7d-Ef'')
      = make_cmdname ''a'' @ upper_char (CHR ''b'') #
             map (\<lambda>i. if 0 < i \<and> ''c-7d-Ef'' ! (i - 1) = CHR ''-''
                       then upper_char (''c-7d-Ef'' ! i) else ''c-7d-Ef'' ! i)
               (filter (\<lambda>i. ''c-7d-Ef'' ! i \<noteq> CHR ''-'') [0..<length ''c-7d-Ef''])"
    by blast
  from m
    make_cmdname_edge_cases [where c = "CHR ''7''" and xs = "''bc''" and ys = "''d-Ef''"]
  have q: "upper_char (CHR ''7'') = CHR ''7''
      \<and> make_cmdname (''bc'' @ CHR ''-'' # CHR ''7'' # ''d-Ef'')
      = make_cmdname ''bc'' @ CHR ''7'' #
             map (\<lambda>i. if 0 < i \<and> ''d-Ef'' ! (i - 1) = CHR ''-''
                       then upper_char (''d-Ef'' ! i) else ''d-Ef'' ! i)
               (filter (\<lambda>i. ''d-Ef'' ! i \<noteq> CHR ''-'') [0..<length ''d-Ef''])"
    by blast
  from n h m p q v w show ?thesis by (simp only: simp_thms)
qed

subsection \<open>The command generator\<close>

lemma make_cmd_regular: "make_cmd name icon ''regular'' = Inr (cmd_of name icon ''regular'')"
  by (simp add: make_cmd_def cmd_of_def resolved_style_def FallbackRule_def FONTS_lookup_def FONTS_def)

lemma make_cmd_solid: "make_cmd name icon ''solid'' = Inr (cmd_of name icon ''solid'')"
  by (simp add: make_cmd_def cmd_of_def resolved_style_def FallbackRule_def FONTS_lookup_def FONTS_def)

lemma make_cmd_brands: "make_cmd name icon ''brands'' = Inr (cmd_of name icon ''brands'')"
  by (simp add: make_cmd_def cmd_of_def resolved_style_def FallbackRule_def FONTS_lookup_def FONTS_def)

lemma make_cmd_valid:
  "style \<in> {''regular'', ''solid'', ''brands''} \<Longrightarrow> make_cmd name icon style = Inr (cmd_of name icon style)"
  using make_cmd_regular make_cmd_solid make_cmd_brands by blast

lemma make_cmd_invalid:
  "style \<notin> {''regular'', ''solid'', ''brands''} \<Longrightarrow>
   make_cmd name icon style = Inl (ValueError (''Invalid style: '' @ style))"
  by (simp add: make_cmd_def)

lemma make_cmd_Inr_cmd_of: "make_cmd name icon style = Inr r \<Longrightarrow> r = cmd_of name icon style"
proof -
  assume a: "make_cmd name icon style = Inr r"
  have v: "style \<in> {''regular'', ''solid'', ''brands''}"
  proof (rule ccontr)
    assume "style \<notin> {''regular'', ''solid'', ''brands''}"
    from make_cmd_invalid [OF this, of name icon] a show False by simp
  qed
  from make_cmd_valid [OF v, of name icon] a show ?thesis by simp
qed

lemma FONTS_valid:
  "style \<in> {''regular'', ''solid'', ''brands''} \<Longrightarrow> \<exists>font. map_of FONTS style = Some font"
  by (auto simp: FONTS_def)

lemma FallbackRule_valid:
  "FallbackRule style = Some fb \<Longrightarrow> fb \<in> {''regular'', ''solid'', ''brands''}"
  by (auto simp: FallbackRule_def split: if_splits)

lemma resolved_style_cases:
  "resolved_style sts target = Some r \<Longrightarrow>
   r \<in> set sts \<and> (r = target \<or> (target \<notin> set sts \<and> FallbackRule target = Some r))"
  by (auto simp: resolved_style_def split: if_splits option.splits)

lemma cmd_of_nonempty: "cmd_of n i style = Some s \<Longrightarrow> s \<noteq> []"
  by (auto simp: cmd_of_def cmd_statement_def split: option.splits)

lemma cmd_of_prefix:
  "cmd_of n i style = Some s \<Longrightarrow> \<exists>rest. s = bs # ''def'' @ bs # ''fa'' @ rest"
  by (auto simp: cmd_of_def cmd_statement_def split: option.splits)

lemma cmd_of_available:
  "style \<in> {''regular'', ''solid'', ''brands''} \<Longrightarrow> cmd_of n i style \<noteq> None \<longleftrightarrow> available style i"
  by (auto simp: cmd_of_def resolved_style_def available_def FallbackRule_def FONTS_def
      split: option.splits)

text \<open>
  Claim C1. For a target among \<^verbatim>\<open>regular\<close>, \<^verbatim>\<open>solid\<close> and \<^verbatim>\<open>brands\<close>: when the
  icon has the target, \<^verbatim>\<open>make_cmd\<close> returns the statement with the font that
  \<^verbatim>\<open>FONTS\<close> binds to the target; otherwise, when the target has a fallback and the
  icon has it, the statement with the font bound to the fallback; otherwise
  \<^verbatim>\<open>None\<close>. For an icon whose only style is \<^verbatim>\<open>solid\<close>, the target \<^verbatim>\<open>regular\<close>
  gives the statement with \<^verbatim>\<open>FontAwesomeSolid\<close> and the target \<^verbatim>\<open>brands\<close> gives
  \<^verbatim>\<open>None\<close>.
\<close>

theorem make_cmd_font_resolution:
  assumes "style \<in> {''regular'', ''solid'', ''brands''}"
  shows "(style \<in> set (styles icon) \<longrightarrow>
            (\<exists>font. map_of FONTS style = Some font
               \<and> make_cmd name icon style = Inr (Some (cmd_statement (make_cmdname name) font name))))
       \<and> (style \<notin> set (styles icon) \<longrightarrow>
            (\<forall>fb. FallbackRule style = Some fb \<and> fb \<in> set (styles icon) \<longrightarrow>
               (\<exists>font. map_of FONTS fb = Some font
                  \<and> make_cmd name icon style = Inr (Some (cmd_statement (make_cmdname name) font name)))))
       \<and> (style \<notin> set (styles icon) \<and> (\<forall>fb. FallbackRule style = Some fb \<longrightarrow> fb \<notin> set (styles icon)) \<longrightarrow>
            make_cmd name icon style = Inr None)
       \<and> (set (styles icon) = {''solid''} \<longrightarrow>
            make_cmd name icon ''regular''
              = Inr (Some (cmd_statement (make_cmdname name) ''FontAwesomeSolid'' name))
            \<and> make_cmd name icon ''brands'' = Inr None)"
proof -
  note mk = make_cmd_valid [OF assms, of name icon]
  have a: "\<exists>font. map_of FONTS style = Some font
             \<and> make_cmd name icon style = Inr (Some (cmd_statement (make_cmdname name) font name))"
    if "style \<in> set (styles icon)"
  proof -
    from FONTS_valid [OF assms] obtain font where f: "map_of FONTS style = Some font" ..
    from that f have "cmd_of name icon style = Some (cmd_statement (make_cmdname name) font name)"
      by (simp add: cmd_of_def resolved_style_def)
    with f mk show ?thesis by simp
  qed
  have b: "\<exists>font. map_of FONTS fb = Some font
             \<and> make_cmd name icon style = Inr (Some (cmd_statement (make_cmdname name) font name))"
    if "style \<notin> set (styles icon)" "FallbackRule style = Some fb" "fb \<in> set (styles icon)" for fb
  proof -
    from FONTS_valid [OF FallbackRule_valid [OF that(2)]]
    obtain font where f: "map_of FONTS fb = Some font" ..
    from that f have "cmd_of name icon style = Some (cmd_statement (make_cmdname name) font name)"
      by (simp add: cmd_of_def resolved_style_def)
    with f mk show ?thesis by simp
  qed
  have c: "make_cmd name icon style = Inr None"
    if "style \<notin> set (styles icon)" "\<forall>fb. FallbackRule style = Some fb \<longrightarrow> fb \<notin> set (styles icon)"
  proof -
    from that have "cmd_of name icon style = None"
      by (simp add: cmd_of_def resolved_style_def split: option.splits)
    with mk show ?thesis by simp
  qed
  have d: "make_cmd name icon ''regular''
             = Inr (Some (cmd_statement (make_cmdname name) ''FontAwesomeSolid'' name))
         \<and> make_cmd name icon ''brands'' = Inr None"
    if "set (styles icon) = {''solid''}"
    using that
    by (simp add: make_cmd_regular make_cmd_brands cmd_of_def resolved_style_def
        FallbackRule_def FONTS_def)
  from a b c d show ?thesis by blast
qed

theorem make_cmd_font_resolution_witness:
  "''regular'' \<in> {''regular'', ''solid'', ''brands''}
   \<and> set (styles \<lparr>unicode = ''f118'', styles = [''solid'']\<rparr>) = {''solid''}
   \<and> make_cmd ''face-smile'' \<lparr>unicode = ''f118'', styles = [''solid'']\<rparr> ''regular''
       = Inr (Some (cmd_statement (make_cmdname ''face-smile'') ''FontAwesomeSolid'' ''face-smile''))
   \<and> make_cmd ''face-smile'' \<lparr>unicode = ''f118'', styles = [''solid'']\<rparr> ''brands'' = Inr None"
proof -
  have h: "''regular'' \<in> {''regular'', ''solid'', ''brands''}"
    by simp
  have s: "set (styles \<lparr>unicode = ''f118'', styles = [''solid'']\<rparr>) = {''solid''}"
    by simp
  from h s make_cmd_font_resolution [OF h, of "\<lparr>unicode = ''f118'', styles = [''solid'']\<rparr>" "''face-smile''"]
  show ?thesis by blast
qed

text \<open>
  Claim C3. Every statement that \<^verbatim>\<open>make_cmd\<close> returns is, with \<open>bs\<close> the
  backslash: \<open>bs\<close>, \<^verbatim>\<open>def\<close>, \<open>bs\<close>, \<^verbatim>\<open>fa\<close>, the result of \<^verbatim>\<open>make_cmdname\<close>
  on the name, \<^verbatim>\<open>{{\<close>, \<open>bs\<close>, the font, \<open>bs\<close>, \<^verbatim>\<open>csname faicon@\<close>, the name,
  \<open>bs\<close>, \<^verbatim>\<open>endcsname}}\<close>. The font is the one that \<^verbatim>\<open>FONTS\<close> binds to the
  resolved style, which is a style of the icon: the target, or its fallback when the
  icon lacks the target.
\<close>

theorem make_cmd_statement_form:
  assumes "make_cmd name icon style = Inr (Some s)"
  shows "\<exists>r font. resolved_style (styles icon) style = Some r
           \<and> r \<in> set (styles icon)
           \<and> map_of FONTS r = Some font
           \<and> s = bs # ''def'' @ bs # ''fa'' @ make_cmdname name @ ''{{'' @ bs # font
                   @ bs # ''csname faicon@'' @ name @ bs # ''endcsname}}''"
proof -
  have v: "style \<in> {''regular'', ''solid'', ''brands''}"
  proof (rule ccontr)
    assume "style \<notin> {''regular'', ''solid'', ''brands''}"
    from make_cmd_invalid [OF this, of name icon] assms show False by simp
  qed
  from make_cmd_valid [OF v, of name icon] assms
  have "cmd_of name icon style = Some s" by simp
  then obtain r font where r: "resolved_style (styles icon) style = Some r"
    and f: "map_of FONTS r = Some font"
    and s: "s = cmd_statement (make_cmdname name) font name"
    by (auto simp: cmd_of_def split: option.splits)
  from resolved_style_cases [OF r] have "r \<in> set (styles icon)" ..
  with r f s show ?thesis by (simp add: cmd_statement_def)
qed

theorem make_cmd_statement_form_witness:
  "make_cmd ''face-smile'' \<lparr>unicode = ''f118'', styles = [''solid'']\<rparr> ''regular''
     = Inr (Some (bs # ''def'' @ bs # ''faFaceSmile{{'' @ bs # ''FontAwesomeSolid''
                    @ bs # ''csname faicon@face-smile'' @ bs # ''endcsname}}''))
   \<and> (\<exists>r font. resolved_style [''solid''] ''regular'' = Some r
         \<and> r \<in> set [''solid'']
         \<and> map_of FONTS r = Some font)"
proof -
  have h: "make_cmd ''face-smile'' \<lparr>unicode = ''f118'', styles = [''solid'']\<rparr> ''regular''
     = Inr (Some (bs # ''def'' @ bs # ''faFaceSmile{{'' @ bs # ''FontAwesomeSolid''
                    @ bs # ''csname faicon@face-smile'' @ bs # ''endcsname}}''))"
    by code_simp
  from make_cmd_statement_form [OF h] have
    "\<exists>r font. resolved_style [''solid''] ''regular'' = Some r
         \<and> r \<in> set [''solid'']
         \<and> map_of FONTS r = Some font"
    by auto
  with h show ?thesis by blast
qed

text \<open>
  Claim C9. \<^verbatim>\<open>make_cmd\<close> raises exactly when the style is none of \<^verbatim>\<open>regular\<close>,
  \<^verbatim>\<open>solid\<close> and \<^verbatim>\<open>brands\<close>, whatever the icon; the exception is then the
  \<^verbatim>\<open>ValueError\<close> with the message \<^verbatim>\<open>Invalid style: \<close> followed by the style. For
  the three styles it returns, a statement or \<^verbatim>\<open>None\<close>.
\<close>

theorem make_cmd_error_iff:
  "(make_cmd name icon style = Inl e \<longleftrightarrow>
      style \<notin> {''regular'', ''solid'', ''brands''} \<and> e = ValueError (''Invalid style: '' @ style))
   \<and> (style \<in> {''regular'', ''solid'', ''brands''} \<longrightarrow> (\<exists>r. make_cmd name icon style = Inr r))"
proof (cases "style \<in> {''regular'', ''solid'', ''brands''}")
  case True
  from make_cmd_valid [OF True, of name icon] True show ?thesis by simp
next
  case False
  from make_cmd_invalid [OF False, of name icon] False show ?thesis by auto
qed

theorem make_cmd_error_iff_witness:
  "''light'' \<notin> {''regular'', ''solid'', ''brands''}
   \<and> make_cmd ''github'' \<lparr>unicode = ''f09b'', styles = [''brands'']\<rparr> ''light''
       = Inl (ValueError ''Invalid style: light'')
   \<and> ''solid'' \<in> {''regular'', ''solid'', ''brands''}
   \<and> (\<exists>r. make_cmd ''github'' \<lparr>unicode = ''f09b'', styles = [''brands'']\<rparr> ''solid'' = Inr r)"
proof -
  have a: "''light'' \<notin> {''regular'', ''solid'', ''brands''}"
    by simp
  have b: "''solid'' \<in> {''regular'', ''solid'', ''brands''}"
    by simp
  from a
    make_cmd_error_iff [of "''github''" "\<lparr>unicode = ''f09b'', styles = [''brands'']\<rparr>" "''light''"
      "ValueError ''Invalid style: light''"]
  have c: "make_cmd ''github'' \<lparr>unicode = ''f09b'', styles = [''brands'']\<rparr> ''light''
       = Inl (ValueError ''Invalid style: light'')"
    by simp
  from b
    make_cmd_error_iff [of "''github''" "\<lparr>unicode = ''f09b'', styles = [''brands'']\<rparr>" "''solid''"]
  have d: "\<exists>r. make_cmd ''github'' \<lparr>unicode = ''f09b'', styles = [''brands'']\<rparr> ''solid'' = Inr r"
    by blast
  from a b c d show ?thesis by blast
qed

subsection \<open>The generation pass\<close>

lemma map_insort_key: "map f (insort_key f x xs) = insort (f x) (map f xs)"
  by (induction xs) simp_all

lemma map_sort_key: "map f (sort_key f xs) = sort (map f xs)"
  by (induction xs) (simp_all add: map_insort_key)

lemma comprehension_lookup:
  assumes "\<And>n i. (n, i) \<in> set es \<Longrightarrow> icons_lookup icons n = Inr i \<and> F n i = Inr (G n i)"
  shows "comprehension (\<lambda>name. case icons_lookup icons name of
                                 Inl e \<Rightarrow> Inl e
                               | Inr icon \<Rightarrow> F name icon) (map fst es)
         = Inr (map (\<lambda>(n, i). G n i) es)"
  using assms
proof (induction es)
  case Nil
  show ?case by simp
next
  case (Cons p es)
  obtain n i where p: "p = (n, i)" by (cases p)
  from Cons.prems [of n i] p have hd: "icons_lookup icons n = Inr i" "F n i = Inr (G n i)"
    by simp_all
  have "comprehension (\<lambda>name. case icons_lookup icons name of
                                 Inl e \<Rightarrow> Inl e
                               | Inr icon \<Rightarrow> F name icon) (map fst es)
         = Inr (map (\<lambda>(n, i). G n i) es)"
    by (rule Cons.IH) (simp add: Cons.prems)
  with hd p show ?case by simp
qed

lemma icons_lookup_entry:
  "distinct (map fst icons) \<Longrightarrow> (n, i) \<in> set icons \<Longrightarrow> icons_lookup icons n = Inr i"
  by (simp add: icons_lookup_def)

lemma main_lists_closed:
  assumes "distinct (map fst icons)"
  shows "main_lists icons =
     Inr \<lparr>mappings = map (\<lambda>(n, i). make_map n (unicode i)) (sort_key fst icons),
          cmds_regular = exclude_nones (map (\<lambda>(n, i). cmd_of n i ''regular'') (sort_key fst icons)),
          cmds_solid = exclude_nones (map (\<lambda>(n, i). cmd_of n i ''solid'') (sort_key fst icons)),
          cmds_brands = exclude_nones (map (\<lambda>(n, i). cmd_of n i ''brands'') (sort_key fst icons))\<rparr>"
proof -
  let ?es = "sort_key fst icons"
  have keys: "sort (map fst icons) = map fst ?es"
    by (simp add: map_sort_key)
  have look: "icons_lookup icons n = Inr i" if "(n, i) \<in> set ?es" for n i
    using that assms by (simp add: icons_lookup_entry)
  have m: "comprehension (\<lambda>name. case icons_lookup icons name of
                                 Inl e \<Rightarrow> Inl e
                               | Inr icon \<Rightarrow> Inr (make_map name (unicode icon))) (map fst ?es)
         = Inr (map (\<lambda>(n, i). make_map n (unicode i)) ?es)"
    by (rule comprehension_lookup) (simp add: look)
  have r: "comprehension (\<lambda>name. case icons_lookup icons name of
                                 Inl e \<Rightarrow> Inl e
                               | Inr icon \<Rightarrow> make_cmd name icon ''regular'') (map fst ?es)
         = Inr (map (\<lambda>(n, i). cmd_of n i ''regular'') ?es)"
    by (rule comprehension_lookup) (simp add: look make_cmd_regular)
  have s: "comprehension (\<lambda>name. case icons_lookup icons name of
                                 Inl e \<Rightarrow> Inl e
                               | Inr icon \<Rightarrow> make_cmd name icon ''solid'') (map fst ?es)
         = Inr (map (\<lambda>(n, i). cmd_of n i ''solid'') ?es)"
    by (rule comprehension_lookup) (simp add: look make_cmd_solid)
  have b: "comprehension (\<lambda>name. case icons_lookup icons name of
                                 Inl e \<Rightarrow> Inl e
                               | Inr icon \<Rightarrow> make_cmd name icon ''brands'') (map fst ?es)
         = Inr (map (\<lambda>(n, i). cmd_of n i ''brands'') ?es)"
    by (rule comprehension_lookup) (simp add: look make_cmd_brands)
  show ?thesis
    unfolding main_lists_def Let_def keys m r s b by simp
qed

lemma exclude_nones_somes:
  "(\<And>s. Some s \<in> set cmds \<Longrightarrow> s \<noteq> []) \<Longrightarrow> exclude_nones cmds = [s. Some s \<leftarrow> cmds]"
  by (induction cmds rule: exclude_nones.induct) auto

lemma length_somes: "length [s. Some s \<leftarrow> map f xs] = length (filter (\<lambda>x. f x \<noteq> None) xs)"
  by (induction xs) (auto split: option.splits)

lemma length_exclude_nones_cmd_of:
  "length (exclude_nones (map (\<lambda>(n, i). cmd_of n i style) es))
     = length (filter (\<lambda>(n, i). cmd_of n i style \<noteq> None) es)"
proof -
  have "exclude_nones (map (\<lambda>(n, i). cmd_of n i style) es)
          = [s. Some s \<leftarrow> map (\<lambda>(n, i). cmd_of n i style) es]"
    by (rule exclude_nones_somes) (auto dest: cmd_of_nonempty [OF sym])
  then show ?thesis
    by (simp only: length_somes) (simp add: case_prod_unfold)
qed

lemma exclude_nones_cmd_of:
  "exclude_nones (map (\<lambda>(n, i). cmd_of n i style) es)
     = [s. Some s \<leftarrow> map (\<lambda>(n, i). cmd_of n i style) es]"
  by (rule exclude_nones_somes) (auto dest: cmd_of_nonempty [OF sym])

lemma length_filter_sort_key: "length (filter P (sort_key f xs)) = length (filter P xs)"
  by (simp add: filter_sort)

lemma length_exclude_nones_le: "length (exclude_nones cmds) \<le> length cmds"
  by (induction cmds rule: exclude_nones.induct) auto

lemma length_cmds:
  assumes "style \<in> {''regular'', ''solid'', ''brands''}"
  shows "length (exclude_nones (map (\<lambda>(n, i). cmd_of n i style) (sort_key fst icons)))
           = length (filter (\<lambda>(n, i). available style i) icons)"
proof -
  have "(\<lambda>(n, i). cmd_of n i style \<noteq> None) = (\<lambda>(n :: string, i). available style i)"
    using assms by (simp only: cmd_of_available)
  then show ?thesis
    by (simp only: length_exclude_nones_cmd_of length_filter_sort_key)
qed

lemma distinct_keys_sort_key:
  "distinct (map fst icons) \<Longrightarrow> distinct (map fst (sort_key fst icons))"
  by (simp add: map_sort_key)

lemma sort_key_set_unique:
  assumes "distinct (map fst xs)" "distinct (map fst ys)" "set xs = set ys"
  shows "sort_key fst xs = sort_key fst ys"
proof (rule map_sorted_distinct_set_unique [where f = fst])
  from assms(1) have "inj_on fst (set xs)"
    by (simp add: distinct_map)
  with assms(3) show "inj_on fst (set (sort_key fst xs) \<union> set (sort_key fst ys))"
    by simp
  show "sorted (map fst (sort_key fst xs))" "sorted (map fst (sort_key fst ys))"
    by (rule sorted_sort_key)+
  show "distinct (map fst (sort_key fst xs))" "distinct (map fst (sort_key fst ys))"
    using assms(1,2) by (simp_all only: distinct_keys_sort_key)
  show "set (sort_key fst xs) = set (sort_key fst ys)"
    using assms(3) by simp
qed

text \<open>
  Claim C2. The pass over a dictionary of icons returns; the list of mappings is as
  long as the dictionary, each list of commands is at most as long, and its length
  is the number of icons that have the target style or the fallback of the target.
  For \<^verbatim>\<open>brands\<close> that is the number of icons that have \<^verbatim>\<open>brands\<close>.
\<close>

theorem list_lengths:
  assumes "distinct (map fst icons)"
  shows "\<exists>l. main_lists icons = Inr l
           \<and> length (mappings l) = length icons
           \<and> length (cmds_regular l) \<le> length icons
           \<and> length (cmds_solid l) \<le> length icons
           \<and> length (cmds_brands l) \<le> length icons
           \<and> length (cmds_regular l) = length (filter (\<lambda>(n, i). available ''regular'' i) icons)
           \<and> length (cmds_solid l) = length (filter (\<lambda>(n, i). available ''solid'' i) icons)
           \<and> length (cmds_brands l) = length (filter (\<lambda>(n, i). available ''brands'' i) icons)
           \<and> length (cmds_brands l) = length (filter (\<lambda>(n, i). ''brands'' \<in> set (styles i)) icons)"
proof -
  let ?es = "sort_key fst icons"
  let ?l = "\<lparr>mappings = map (\<lambda>(n, i). make_map n (unicode i)) ?es,
          cmds_regular = exclude_nones (map (\<lambda>(n, i). cmd_of n i ''regular'') ?es),
          cmds_solid = exclude_nones (map (\<lambda>(n, i). cmd_of n i ''solid'') ?es),
          cmds_brands = exclude_nones (map (\<lambda>(n, i). cmd_of n i ''brands'') ?es)\<rparr>"
  have l: "main_lists icons = Inr ?l"
    using assms by (rule main_lists_closed)
  have m: "length (mappings ?l) = length icons"
    by simp
  have le: "length (exclude_nones (map (\<lambda>(n, i). cmd_of n i style) ?es)) \<le> length icons" for style
    using length_exclude_nones_le [of "map (\<lambda>(n, i). cmd_of n i style) ?es"] by simp
  have r: "length (cmds_regular ?l) = length (filter (\<lambda>(n, i). available ''regular'' i) icons)"
    by (simp add: length_cmds)
  have s: "length (cmds_solid ?l) = length (filter (\<lambda>(n, i). available ''solid'' i) icons)"
    by (simp add: length_cmds)
  have b: "length (cmds_brands ?l) = length (filter (\<lambda>(n, i). available ''brands'' i) icons)"
    by (simp add: length_cmds)
  have b': "length (cmds_brands ?l) = length (filter (\<lambda>(n, i). ''brands'' \<in> set (styles i)) icons)"
  proof -
    have "available ''brands'' i \<longleftrightarrow> ''brands'' \<in> set (styles i)" for i
      by (simp add: available_def FallbackRule_def)
    with b show ?thesis by simp
  qed
  from l m le r s b b' show ?thesis
    by (intro exI [of _ ?l]) simp
qed

theorem list_lengths_witness:
  "distinct (map fst example_icons)
   \<and> (\<exists>l. main_lists example_icons = Inr l
         \<and> length (mappings l) = 2
         \<and> length (cmds_regular l) = 1
         \<and> length (cmds_solid l) = 1
         \<and> length (cmds_brands l) = 1)"
proof -
  have h: "distinct (map fst example_icons)"
    by code_simp
  have n: "length example_icons = 2"
    by code_simp
  have r: "length (filter (\<lambda>(n, i). available ''regular'' i) example_icons) = 1"
    by code_simp
  have s: "length (filter (\<lambda>(n, i). available ''solid'' i) example_icons) = 1"
    by code_simp
  have b: "length (filter (\<lambda>(n, i). available ''brands'' i) example_icons) = 1"
    by code_simp
  from list_lengths [OF h] obtain l where "main_lists example_icons = Inr l"
    "length (mappings l) = length example_icons"
    "length (cmds_regular l) = length (filter (\<lambda>(n, i). available ''regular'' i) example_icons)"
    "length (cmds_solid l) = length (filter (\<lambda>(n, i). available ''solid'' i) example_icons)"
    "length (cmds_brands l) = length (filter (\<lambda>(n, i). available ''brands'' i) example_icons)"
    by blast
  with h n r s b show ?thesis
    by (intro conjI exI [of _ l]) (simp_all only:)
qed

text \<open>
  Claim C4 as stated closes the double quote after the code point. \<^verbatim>\<open>make_map\<close>
  writes one double quote, before the code point (the hexadecimal notation of TeX),
  and none after it.
\<close>

theorem mapping_statement_counterexample:
  "make_map ''github'' ''f09b''
     = bs # ''expandafter'' @ bs # ''def'' @ bs # ''csname faicon@github''
         @ bs # ''endcsname{'' @ bs # ''symbol{'' @ dq # ''F09B}}''
   \<and> make_map ''github'' ''f09b''
     \<noteq> bs # ''expandafter'' @ bs # ''def'' @ bs # ''csname faicon@github''
         @ bs # ''endcsname{'' @ bs # ''symbol{'' @ dq # ''F09B'' @ dq # ''}}''
   \<and> map_sum id mappings (main_lists [(''github'', \<lparr>unicode = ''f09b'', styles = [''brands'']\<rparr>)])
     = Inr [make_map ''github'' ''f09b'']"
  by code_simp

text \<open>
  Claim C4, amended. The list of mappings holds, for the entries of the dictionary
  sorted by name (each entry once, whatever its styles), the statement made of, with
  \<open>bs\<close> the backslash: \<open>bs\<close>, \<^verbatim>\<open>expandafter\<close>, \<open>bs\<close>, \<^verbatim>\<open>def\<close>, \<open>bs\<close>,
  \<^verbatim>\<open>csname faicon@\<close>, the name, \<open>bs\<close>, \<^verbatim>\<open>endcsname{\<close>, \<open>bs\<close>,
  \<^verbatim>\<open>symbol{\<close>, one double quote, the code point in uppercase, \<^verbatim>\<open>}}\<close>.
\<close>

theorem mapping_list:
  assumes "distinct (map fst icons)"
  shows "\<exists>l. main_lists icons = Inr l
           \<and> mappings l =
               map (\<lambda>(n, i). bs # ''expandafter'' @ bs # ''def'' @ bs # ''csname faicon@'' @ n
                               @ bs # ''endcsname{'' @ bs # ''symbol{'' @ dq # upper (unicode i) @ ''}}'')
                 (sort_key fst icons)
           \<and> length (mappings l) = length icons
           \<and> set (sort_key fst icons) = set icons
           \<and> sorted (map fst (sort_key fst icons))
           \<and> distinct (map fst (sort_key fst icons))"
proof -
  let ?es = "sort_key fst icons"
  let ?l = "\<lparr>mappings = map (\<lambda>(n, i). make_map n (unicode i)) ?es,
          cmds_regular = exclude_nones (map (\<lambda>(n, i). cmd_of n i ''regular'') ?es),
          cmds_solid = exclude_nones (map (\<lambda>(n, i). cmd_of n i ''solid'') ?es),
          cmds_brands = exclude_nones (map (\<lambda>(n, i). cmd_of n i ''brands'') ?es)\<rparr>"
  have l: "main_lists icons = Inr ?l"
    using assms by (rule main_lists_closed)
  have m: "mappings ?l =
      map (\<lambda>(n, i). bs # ''expandafter'' @ bs # ''def'' @ bs # ''csname faicon@'' @ n
                      @ bs # ''endcsname{'' @ bs # ''symbol{'' @ dq # upper (unicode i) @ ''}}'') ?es"
    by (simp add: make_map_def)
  have n: "length (mappings ?l) = length icons"
    by simp
  have s: "set ?es = set icons"
    by simp
  have o: "sorted (map fst ?es)"
    by (rule sorted_sort_key)
  have d: "distinct (map fst ?es)"
    using assms by (rule distinct_keys_sort_key)
  from l m n s o d show ?thesis
    by (intro exI [of _ ?l] conjI)
qed

theorem mapping_list_witness:
  "distinct (map fst example_icons)
   \<and> sort_key fst example_icons =
       [(''face-smile'', \<lparr>unicode = ''f118'', styles = [''solid'']\<rparr>),
        (''github'', \<lparr>unicode = ''f09b'', styles = [''brands'']\<rparr>)]
   \<and> (\<exists>l. main_lists example_icons = Inr l
         \<and> mappings l =
             [bs # ''expandafter'' @ bs # ''def'' @ bs # ''csname faicon@face-smile''
                @ bs # ''endcsname{'' @ bs # ''symbol{'' @ dq # ''F118}}'',
              bs # ''expandafter'' @ bs # ''def'' @ bs # ''csname faicon@github''
                @ bs # ''endcsname{'' @ bs # ''symbol{'' @ dq # ''F09B}}''])"
proof -
  have h: "distinct (map fst example_icons)"
    by code_simp
  have k: "sort_key fst example_icons =
       [(''face-smile'', \<lparr>unicode = ''f118'', styles = [''solid'']\<rparr>),
        (''github'', \<lparr>unicode = ''f09b'', styles = [''brands'']\<rparr>)]"
    by code_simp
  have u: "upper ''f118'' = ''F118''" "upper ''f09b'' = ''F09B''"
    by code_simp+
  from mapping_list [OF h] obtain l where "main_lists example_icons = Inr l"
    and "mappings l =
               map (\<lambda>(n, i). bs # ''expandafter'' @ bs # ''def'' @ bs # ''csname faicon@'' @ n
                               @ bs # ''endcsname{'' @ bs # ''symbol{'' @ dq # upper (unicode i) @ ''}}'')
                 (sort_key fst example_icons)"
    by blast
  with h k u show ?thesis
    by (intro conjI exI [of _ l]) simp_all
qed

text \<open>
  Claim C8. Two dictionaries with the same entries, inserted in whatever order, have
  the same list of entries sorted by name, and the pass iterates over that list: the
  mappings are the statements of the entries in increasing order of name, and each
  list of commands is the statements among the results of \<^verbatim>\<open>make_cmd\<close> on the
  entries in that order. So both dictionaries give the same four lists, and the same
  four text blocks, each the list joined by newlines.
\<close>

theorem insertion_order_irrelevant:
  assumes "distinct (map fst xs)" "distinct (map fst ys)" "set xs = set ys"
  shows "\<exists>l rs ss bs'.
           sort_key fst xs = sort_key fst ys
           \<and> sorted (map fst (sort_key fst xs))
           \<and> distinct (map fst (sort_key fst xs))
           \<and> set (sort_key fst xs) = set xs
           \<and> main_lists xs = Inr l
           \<and> main_lists ys = Inr l
           \<and> mappings l = map (\<lambda>(n, i). make_map n (unicode i)) (sort_key fst xs)
           \<and> map (\<lambda>(n, i). make_cmd n i ''regular'') (sort_key fst xs) = map Inr rs
           \<and> cmds_regular l = [s. Some s \<leftarrow> rs]
           \<and> map (\<lambda>(n, i). make_cmd n i ''solid'') (sort_key fst xs) = map Inr ss
           \<and> cmds_solid l = [s. Some s \<leftarrow> ss]
           \<and> map (\<lambda>(n, i). make_cmd n i ''brands'') (sort_key fst xs) = map Inr bs'
           \<and> cmds_brands l = [s. Some s \<leftarrow> bs']
           \<and> main_data xs = Inr (join [nl] (mappings l), join [nl] (cmds_regular l),
                                 join [nl] (cmds_solid l), join [nl] (cmds_brands l))
           \<and> main_data ys = main_data xs"
proof -
  let ?es = "sort_key fst xs"
  let ?l = "\<lparr>mappings = map (\<lambda>(n, i). make_map n (unicode i)) ?es,
          cmds_regular = exclude_nones (map (\<lambda>(n, i). cmd_of n i ''regular'') ?es),
          cmds_solid = exclude_nones (map (\<lambda>(n, i). cmd_of n i ''solid'') ?es),
          cmds_brands = exclude_nones (map (\<lambda>(n, i). cmd_of n i ''brands'') ?es)\<rparr>"
  have k: "sort_key fst xs = sort_key fst ys"
    using assms by (rule sort_key_set_unique)
  have o: "sorted (map fst ?es)"
    by (rule sorted_sort_key)
  have d: "distinct (map fst ?es)"
    using assms(1) by (rule distinct_keys_sort_key)
  have e: "set ?es = set xs"
    by simp
  have lx: "main_lists xs = Inr ?l"
    using assms(1) by (rule main_lists_closed)
  have ly: "main_lists ys = Inr ?l"
    unfolding k using assms(2) by (rule main_lists_closed)
  have m: "mappings ?l = map (\<lambda>(n, i). make_map n (unicode i)) ?es"
    by simp
  have r: "map (\<lambda>(n, i). make_cmd n i ''regular'') ?es = map Inr (map (\<lambda>(n, i). cmd_of n i ''regular'') ?es)"
    by (simp add: make_cmd_regular case_prod_unfold)
  have s: "map (\<lambda>(n, i). make_cmd n i ''solid'') ?es = map Inr (map (\<lambda>(n, i). cmd_of n i ''solid'') ?es)"
    by (simp add: make_cmd_solid case_prod_unfold)
  have b: "map (\<lambda>(n, i). make_cmd n i ''brands'') ?es = map Inr (map (\<lambda>(n, i). cmd_of n i ''brands'') ?es)"
    by (simp add: make_cmd_brands case_prod_unfold)
  have r': "cmds_regular ?l = [s. Some s \<leftarrow> map (\<lambda>(n, i). cmd_of n i ''regular'') ?es]"
    by (simp only: lists.simps exclude_nones_cmd_of)
  have s': "cmds_solid ?l = [s. Some s \<leftarrow> map (\<lambda>(n, i). cmd_of n i ''solid'') ?es]"
    by (simp only: lists.simps exclude_nones_cmd_of)
  have b': "cmds_brands ?l = [s. Some s \<leftarrow> map (\<lambda>(n, i). cmd_of n i ''brands'') ?es]"
    by (simp only: lists.simps exclude_nones_cmd_of)
  have dx: "main_data xs = Inr (join [nl] (mappings ?l), join [nl] (cmds_regular ?l),
                                 join [nl] (cmds_solid ?l), join [nl] (cmds_brands ?l))"
    unfolding main_data_def lx by simp
  have dy: "main_data ys = main_data xs"
    unfolding main_data_def lx ly by (rule refl)
  from k o d e lx ly m r r' s s' b b' dx dy show ?thesis
    by (intro exI conjI)
qed

theorem insertion_order_irrelevant_witness:
  "distinct (map fst example_icons)
   \<and> distinct (map fst (rev example_icons))
   \<and> set example_icons = set (rev example_icons)
   \<and> rev example_icons \<noteq> example_icons
   \<and> map fst (rev example_icons) = [''face-smile'', ''github'']
   \<and> map fst example_icons = [''github'', ''face-smile'']
   \<and> (\<exists>l. main_lists example_icons = Inr l
         \<and> main_lists (rev example_icons) = Inr l
         \<and> mappings l = [make_map ''face-smile'' ''f118'', make_map ''github'' ''f09b'']
         \<and> cmds_regular l = [cmd_statement ''FaceSmile'' ''FontAwesomeSolid'' ''face-smile'']
         \<and> cmds_solid l = [cmd_statement ''FaceSmile'' ''FontAwesomeSolid'' ''face-smile'']
         \<and> cmds_brands l = [cmd_statement ''Github'' ''FontAwesomeBrands'' ''github''])
   \<and> main_data (rev example_icons) = main_data example_icons"
proof -
  have a: "distinct (map fst example_icons)"
    by code_simp
  have b: "distinct (map fst (rev example_icons))"
    by code_simp
  have c: "set example_icons = set (rev example_icons)"
    by simp
  have d: "rev example_icons \<noteq> example_icons"
    by code_simp
  have f: "map fst (rev example_icons) = [''face-smile'', ''github'']"
    by code_simp
  have g: "map fst example_icons = [''github'', ''face-smile'']"
    by code_simp
  have k: "sort_key fst example_icons =
       [(''face-smile'', \<lparr>unicode = ''f118'', styles = [''solid'']\<rparr>),
        (''github'', \<lparr>unicode = ''f09b'', styles = [''brands'']\<rparr>)]"
    by code_simp
  have kr: "map (\<lambda>(n, i). make_cmd n i ''regular'') (sort_key fst example_icons)
      = map Inr [Some (cmd_statement ''FaceSmile'' ''FontAwesomeSolid'' ''face-smile''), None]"
    by code_simp
  have ks: "map (\<lambda>(n, i). make_cmd n i ''solid'') (sort_key fst example_icons)
      = map Inr [Some (cmd_statement ''FaceSmile'' ''FontAwesomeSolid'' ''face-smile''), None]"
    by code_simp
  have kb: "map (\<lambda>(n, i). make_cmd n i ''brands'') (sort_key fst example_icons)
      = map Inr [None, Some (cmd_statement ''Github'' ''FontAwesomeBrands'' ''github'')]"
    by code_simp
  from insertion_order_irrelevant [OF a b c] obtain l rs ss bs'
    where lx: "main_lists example_icons = Inr l"
      and ly: "main_lists (rev example_icons) = Inr l"
      and m: "mappings l = map (\<lambda>(n, i). make_map n (unicode i)) (sort_key fst example_icons)"
      and r: "map (\<lambda>(n, i). make_cmd n i ''regular'') (sort_key fst example_icons) = map Inr rs"
      and r': "cmds_regular l = [s. Some s \<leftarrow> rs]"
      and s: "map (\<lambda>(n, i). make_cmd n i ''solid'') (sort_key fst example_icons) = map Inr ss"
      and s': "cmds_solid l = [s. Some s \<leftarrow> ss]"
      and b0: "map (\<lambda>(n, i). make_cmd n i ''brands'') (sort_key fst example_icons) = map Inr bs'"
      and b': "cmds_brands l = [s. Some s \<leftarrow> bs']"
      and e: "main_data (rev example_icons) = main_data example_icons"
    by blast
  from m k have m': "mappings l = [make_map ''face-smile'' ''f118'', make_map ''github'' ''f09b'']"
    by simp
  from r kr have "rs = [Some (cmd_statement ''FaceSmile'' ''FontAwesomeSolid'' ''face-smile''), None]"
    by (simp only: inj_map_eq_map [OF inj_Inr])
  with r' have r'': "cmds_regular l = [cmd_statement ''FaceSmile'' ''FontAwesomeSolid'' ''face-smile'']"
    by simp
  from s ks have "ss = [Some (cmd_statement ''FaceSmile'' ''FontAwesomeSolid'' ''face-smile''), None]"
    by (simp only: inj_map_eq_map [OF inj_Inr])
  with s' have s'': "cmds_solid l = [cmd_statement ''FaceSmile'' ''FontAwesomeSolid'' ''face-smile'']"
    by simp
  from b0 kb have "bs' = [None, Some (cmd_statement ''Github'' ''FontAwesomeBrands'' ''github'')]"
    by (simp only: inj_map_eq_map [OF inj_Inr])
  with b' have b'': "cmds_brands l = [cmd_statement ''Github'' ''FontAwesomeBrands'' ''github'']"
    by simp
  from lx ly m' r'' s'' b''
  have "\<exists>l. main_lists example_icons = Inr l
         \<and> main_lists (rev example_icons) = Inr l
         \<and> mappings l = [make_map ''face-smile'' ''f118'', make_map ''github'' ''f09b'']
         \<and> cmds_regular l = [cmd_statement ''FaceSmile'' ''FontAwesomeSolid'' ''face-smile'']
         \<and> cmds_solid l = [cmd_statement ''FaceSmile'' ''FontAwesomeSolid'' ''face-smile'']
         \<and> cmds_brands l = [cmd_statement ''Github'' ''FontAwesomeBrands'' ''github'']"
    by (intro exI [of _ l] conjI)
  with a b c d f g e show ?thesis by (simp only: simp_thms)
qed

text \<open>
  Claim C10. A result of \<^verbatim>\<open>make_cmd\<close> is \<^verbatim>\<open>None\<close> or a non-empty string that begins
  with a backslash, \<^verbatim>\<open>def\<close>, a backslash and \<^verbatim>\<open>fa\<close>. So in the pass each list of commands is exactly the statements
  among the results of \<^verbatim>\<open>make_cmd\<close> on the entries sorted by name, in that order:
  the filter drops the \<^verbatim>\<open>None\<close> results and nothing else.
\<close>

theorem exclude_nones_exact:
  assumes "distinct (map fst icons)"
  shows "(make_cmd name icon style = Inr cmd \<longrightarrow>
            cmd = None
            \<or> (\<exists>s rest. cmd = Some s \<and> s \<noteq> [] \<and> s = bs # ''def'' @ bs # ''fa'' @ rest))
       \<and> (\<exists>l rs ss bs'.
             main_lists icons = Inr l
             \<and> map (\<lambda>(n, i). make_cmd n i ''regular'') (sort_key fst icons) = map Inr rs
             \<and> cmds_regular l = [s. Some s \<leftarrow> rs]
             \<and> map (\<lambda>(n, i). make_cmd n i ''solid'') (sort_key fst icons) = map Inr ss
             \<and> cmds_solid l = [s. Some s \<leftarrow> ss]
             \<and> map (\<lambda>(n, i). make_cmd n i ''brands'') (sort_key fst icons) = map Inr bs'
             \<and> cmds_brands l = [s. Some s \<leftarrow> bs']
             \<and> sorted (map fst (sort_key fst icons))
             \<and> set (sort_key fst icons) = set icons)"
proof -
  let ?es = "sort_key fst icons"
  let ?l = "\<lparr>mappings = map (\<lambda>(n, i). make_map n (unicode i)) ?es,
          cmds_regular = exclude_nones (map (\<lambda>(n, i). cmd_of n i ''regular'') ?es),
          cmds_solid = exclude_nones (map (\<lambda>(n, i). cmd_of n i ''solid'') ?es),
          cmds_brands = exclude_nones (map (\<lambda>(n, i). cmd_of n i ''brands'') ?es)\<rparr>"
  have a: "cmd = None
            \<or> (\<exists>s rest. cmd = Some s \<and> s \<noteq> [] \<and> s = bs # ''def'' @ bs # ''fa'' @ rest)"
    if "make_cmd name icon style = Inr cmd"
  proof (cases cmd)
    case None
    then show ?thesis by simp
  next
    case (Some s)
    with make_cmd_Inr_cmd_of [OF that] have "cmd_of name icon style = Some s" by simp
    from cmd_of_prefix [OF this] Some show ?thesis by auto
  qed
  have l: "main_lists icons = Inr ?l"
    using assms by (rule main_lists_closed)
  have r: "map (\<lambda>(n, i). make_cmd n i ''regular'') ?es = map Inr (map (\<lambda>(n, i). cmd_of n i ''regular'') ?es)"
    by (simp add: make_cmd_regular case_prod_unfold)
  have s: "map (\<lambda>(n, i). make_cmd n i ''solid'') ?es = map Inr (map (\<lambda>(n, i). cmd_of n i ''solid'') ?es)"
    by (simp add: make_cmd_solid case_prod_unfold)
  have b: "map (\<lambda>(n, i). make_cmd n i ''brands'') ?es = map Inr (map (\<lambda>(n, i). cmd_of n i ''brands'') ?es)"
    by (simp add: make_cmd_brands case_prod_unfold)
  have r': "cmds_regular ?l = [s. Some s \<leftarrow> map (\<lambda>(n, i). cmd_of n i ''regular'') ?es]"
    by (simp only: lists.simps exclude_nones_cmd_of)
  have s': "cmds_solid ?l = [s. Some s \<leftarrow> map (\<lambda>(n, i). cmd_of n i ''solid'') ?es]"
    by (simp only: lists.simps exclude_nones_cmd_of)
  have b': "cmds_brands ?l = [s. Some s \<leftarrow> map (\<lambda>(n, i). cmd_of n i ''brands'') ?es]"
    by (simp only: lists.simps exclude_nones_cmd_of)
  have o: "sorted (map fst ?es)"
    by (rule sorted_sort_key)
  have e: "set ?es = set icons"
    by simp
  from l r r' s s' b b' o e
  have "\<exists>l rs ss bs'.
             main_lists icons = Inr l
             \<and> map (\<lambda>(n, i). make_cmd n i ''regular'') ?es = map Inr rs
             \<and> cmds_regular l = [s. Some s \<leftarrow> rs]
             \<and> map (\<lambda>(n, i). make_cmd n i ''solid'') ?es = map Inr ss
             \<and> cmds_solid l = [s. Some s \<leftarrow> ss]
             \<and> map (\<lambda>(n, i). make_cmd n i ''brands'') ?es = map Inr bs'
             \<and> cmds_brands l = [s. Some s \<leftarrow> bs']
             \<and> sorted (map fst ?es)
             \<and> set ?es = set icons"
    by (intro exI conjI)
  with a show ?thesis by blast
qed

theorem exclude_nones_exact_witness:
  "distinct (map fst example_icons)
   \<and> make_cmd ''github'' \<lparr>unicode = ''f09b'', styles = [''brands'']\<rparr> ''solid'' = Inr None
   \<and> (\<exists>l. main_lists example_icons = Inr l
         \<and> cmds_solid l = [bs # ''def'' @ bs # ''faFaceSmile{{'' @ bs # ''FontAwesomeSolid''
                               @ bs # ''csname faicon@face-smile'' @ bs # ''endcsname}}''])"
proof -
  have h: "distinct (map fst example_icons)"
    by code_simp
  have n: "make_cmd ''github'' \<lparr>unicode = ''f09b'', styles = [''brands'']\<rparr> ''solid'' = Inr None"
    by code_simp
  have k: "map (\<lambda>(n, i). make_cmd n i ''solid'') (sort_key fst example_icons)
      = map Inr [Some (bs # ''def'' @ bs # ''faFaceSmile{{'' @ bs # ''FontAwesomeSolid''
                               @ bs # ''csname faicon@face-smile'' @ bs # ''endcsname}}''), None]"
    by code_simp
  from exclude_nones_exact [OF h] obtain l ss where l: "main_lists example_icons = Inr l"
    and ss: "map (\<lambda>(n, i). make_cmd n i ''solid'') (sort_key fst example_icons) = map Inr ss"
    and c: "cmds_solid l = [s. Some s \<leftarrow> ss]"
    by blast
  from ss k have "ss = [Some (bs # ''def'' @ bs # ''faFaceSmile{{'' @ bs # ''FontAwesomeSolid''
                               @ bs # ''csname faicon@face-smile'' @ bs # ''endcsname}}''), None]"
    by (simp only: inj_map_eq_map [OF inj_Inr])
  with c have "cmds_solid l = [bs # ''def'' @ bs # ''faFaceSmile{{'' @ bs # ''FontAwesomeSolid''
                               @ bs # ''csname faicon@face-smile'' @ bs # ''endcsname}}'']"
    by simp
  with h n l show ?thesis by blast
qed

end
